theory Spec2Isabelle
  imports Main "HOL-Library.Word" "HOL-Library.Multiset"
begin

section \<open>Strings and numbers of the source language\<close>

text \<open>
  The program is TypeScript (\<^verbatim>\<open>frontend/src/App.tsx\<close>). A string of the source is a
  sequence of 16-bit code units; \<open>js\<close> embeds an ASCII literal, whose code units are
  its character codes. Numbers that stand for page counts and page indices are modelled
  as unbounded integers: the source's numbers are IEEE doubles, which represent every
  integer below \<open>2 ^ 53\<close> exactly and print it in plain decimal digits, so the model is
  exact for page counts below \<open>2 ^ 53\<close>. The theorems that characterise the validator
  for every expression, or the default selection for every page count, assume that
  bound.
\<close>

type_synonym code_unit = "16 word"
type_synonym jsstring = "code_unit list"

definition js :: "string \<Rightarrow> jsstring" where
  "js s = map of_char s"

definition comma :: code_unit where
  "comma = 0x2C"

definition hyphen :: code_unit where
  "hyphen = 0x2D"

text \<open>
  \<^verbatim>\<open>String.prototype.trim\<close> strips the code units ECMAScript calls WhiteSpace or
  LineTerminator: TAB, LF, VT, FF, CR, SPACE, NBSP, U+1680, U+2000..U+200A, U+2028,
  U+2029, U+202F, U+205F, U+3000 and U+FEFF.
\<close>

definition is_space :: "code_unit \<Rightarrow> bool" where
  "is_space c \<longleftrightarrow>
     (0x0009 \<le> c \<and> c \<le> 0x000D) \<or> c = 0x0020 \<or> c = 0x00A0 \<or> c = 0x1680 \<or>
     (0x2000 \<le> c \<and> c \<le> 0x200A) \<or> c = 0x2028 \<or> c = 0x2029 \<or> c = 0x202F \<or>
     c = 0x205F \<or> c = 0x3000 \<or> c = 0xFEFF"

definition trim :: "jsstring \<Rightarrow> jsstring" where
  "trim s = rev (dropWhile is_space (rev (dropWhile is_space s)))"

text \<open>
  \<^verbatim>\<open>value.split(",")\<close>: the pieces between the commas, in order; a string without a
  comma (the empty string too) gives one piece.
\<close>

fun split_comma :: "jsstring \<Rightarrow> jsstring list" where
  "split_comma [] = [[]]"
| "split_comma (c # cs) =
     (if c = comma then [] # split_comma cs
      else (case split_comma cs of
              [] \<Rightarrow> [[c]]
            | p # ps \<Rightarrow> (c # p) # ps))"

text \<open>The regular expression's \<^verbatim>\<open>\d\<close> is an ASCII digit, \<^verbatim>\<open>0\<close> to \<^verbatim>\<open>9\<close>.\<close>

definition is_digit :: "code_unit \<Rightarrow> bool" where
  "is_digit c \<longleftrightarrow> 0x30 \<le> c \<and> c \<le> 0x39"

text \<open>
  \<^verbatim>\<open>p.match(/^(\d+)(-(\d+))?$/)\<close>: \<open>None\<close> is the source's \<^verbatim>\<open>null\<close>; a match gives
  group 1 and group 3, the latter \<open>None\<close> (\<^verbatim>\<open>undefined\<close>) when the optional group took
  no part. The first \<^verbatim>\<open>\d+\<close> is greedy and what follows a run of digits is no digit, so
  the engine never backtracks into it.
\<close>

definition match_re :: "jsstring \<Rightarrow> (jsstring \<times> jsstring option) option" where
  "match_re p =
     (let g1 = takeWhile is_digit p; rest = dropWhile is_digit p in
      if g1 = [] then None
      else (case rest of
              [] \<Rightarrow> Some (g1, None)
            | c # g3 \<Rightarrow>
                if c = hyphen \<and> g3 \<noteq> [] \<and> list_all is_digit g3
                then Some (g1, Some g3) else None))"

text \<open>
  \<^verbatim>\<open>parseInt(s, 10)\<close> on a string of digits: its decimal value. The source's result is
  a double, which is this value when it is below \<open>2 ^ 53\<close> and a rounding of it, never
  below \<open>2 ^ 53\<close>, otherwise. Against a bound below \<open>2 ^ 53\<close> the comparisons of
  \<^verbatim>\<open>isValidSplit\<close> therefore come out the same on the exact value; the theorems that
  characterise \<^verbatim>\<open>isValidSplit\<close> for every expression assume such a bound.
\<close>

definition digit_val :: "code_unit \<Rightarrow> int" where
  "digit_val c = int (unat c) - 48"

definition parseInt :: "jsstring \<Rightarrow> int" where
  "parseInt s = foldl (\<lambda>acc c. acc * 10 + digit_val c) 0 s"

section \<open>The selection grammar\<close>

text \<open>
  The loop of \<^verbatim>\<open>isValidSplit\<close> over the parts: the first part that does not match, or
  whose bounds are out of range, returns false; running off the end returns true.
\<close>

fun check_parts :: "jsstring list \<Rightarrow> int \<Rightarrow> bool" where
  "check_parts [] mx = True"
| "check_parts (p # ps) mx =
     (case match_re p of
        None \<Rightarrow> False
      | Some (g1, g3) \<Rightarrow>
          (let a = parseInt g1;
               b = (case g3 of Some s \<Rightarrow> parseInt s | None \<Rightarrow> a)
           in if a < 1 \<or> b < 1 \<or> a > mx \<or> b > mx \<or> a > b then False
              else check_parts ps mx))"

definition parts_of :: "jsstring \<Rightarrow> jsstring list" where
  "parts_of v = filter (\<lambda>s. s \<noteq> []) (map trim (split_comma v))"

definition isValidSplit :: "jsstring \<Rightarrow> int \<Rightarrow> bool" where
  "isValidSplit v mx =
     (if trim v = [] then False else check_parts (parts_of v) mx)"

text \<open>
  \<^verbatim>\<open>`1-${pages}`\<close>: a template literal prints an integer below \<open>2 ^ 53\<close> in decimal
  digits, with a minus sign when it is negative. Larger numbers, which the source prints
  in rounded digits and from \<open>10 ^ 21\<close> in exponent notation, are outside what this
  definition models; the theorem on the default selection assumes a page count below
  \<open>2 ^ 53\<close>.
\<close>

fun digits_of :: "nat \<Rightarrow> jsstring" where
  "digits_of n =
     (if n < 10 then [of_nat (48 + n)]
      else digits_of (n div 10) @ [of_nat (48 + n mod 10)])"

declare digits_of.simps [simp del]

definition number_toString :: "int \<Rightarrow> jsstring" where
  "number_toString i =
     (if i < 0 then hyphen # digits_of (nat (- i)) else digits_of (nat i))"

definition defaultSplitForPages :: "int \<Rightarrow> jsstring" where
  "defaultSplitForPages pages_count = js ''1-'' @ number_toString pages_count"

section \<open>Rows and the state of the application\<close>

record UploadedDocMeta =
  documentId :: jsstring
  name :: jsstring
  size_bytes :: int
  pages :: int

record Row = UploadedDocMeta +
  key :: jsstring
  split :: jsstring

text \<open>
  What the source reads of a browser \<^verbatim>\<open>File\<close> (its \<^verbatim>\<open>name\<close> and \<^verbatim>\<open>type\<close>) and of a
  clipboard item (its \<^verbatim>\<open>type\<close> and \<^verbatim>\<open>getAsFile()\<close>, which is \<^verbatim>\<open>null\<close> for an item that
  is no file).
\<close>

record File =
  file_name :: jsstring
  file_type :: jsstring

record DataTransferItem =
  item_type :: jsstring
  getAsFile :: "File option"

text \<open>
  The state of \<^verbatim>\<open>App\<close>: one field for each \<^verbatim>\<open>useState\<close> hook. \<open>uploads\<close> is not a
  variable of the source: it records the bodies of the upload requests handed to
  \<^verbatim>\<open>fetch\<close>, oldest first, so that "no call is made" can be stated.
\<close>

record App =
  rows :: "Row list"
  loading :: bool
  error :: "jsstring option"
  outputName :: jsstring
  uploading :: bool
  uploads :: "File list"

definition initial_App :: App where
  "initial_App =
     \<lparr>rows = [], loading = False, error = None, outputName = js ''merged.pdf'',
      uploading = False, uploads = []\<rparr>"

section \<open>Readiness\<close>

text \<open>\<^verbatim>\<open>Array.prototype.every\<close> stops at the first element that fails the test.\<close>

fun every :: "('a \<Rightarrow> bool) \<Rightarrow> 'a list \<Rightarrow> bool" where
  "every P [] = True"
| "every P (x # xs) = (if P x then every P xs else False)"

definition canGenerate :: "App \<Rightarrow> bool" where
  "canGenerate s \<longleftrightarrow>
     length (rows s) > 0 \<and> every (\<lambda>r. isValidSplit (split r) (pages r)) (rows s)"

section \<open>Operations on the rows\<close>

text \<open>\<^verbatim>\<open>Array.prototype.findIndex\<close>: the first index whose element passes, or \<open>-1\<close>.\<close>

fun findIndex_from :: "('a \<Rightarrow> bool) \<Rightarrow> 'a list \<Rightarrow> int \<Rightarrow> int" where
  "findIndex_from P [] i = - 1"
| "findIndex_from P (x # xs) i = (if P x then i else findIndex_from P xs (i + 1))"

definition findIndex :: "('a \<Rightarrow> bool) \<Rightarrow> 'a list \<Rightarrow> int" where
  "findIndex P xs = findIndex_from P xs 0"

definition updateSplit :: "jsstring \<Rightarrow> jsstring \<Rightarrow> App \<Rightarrow> App" where
  "updateSplit k v s =
     s\<lparr>rows := map (\<lambda>r. if key r = k then r\<lparr>split := v\<rparr> else r) (rows s)\<rparr>"

definition deleteRow :: "jsstring \<Rightarrow> App \<Rightarrow> App" where
  "deleteRow k s = s\<lparr>rows := filter (\<lambda>r. key r \<noteq> k) (rows s)\<rparr>"

text \<open>
  \<^verbatim>\<open>duplicateRow\<close>; \<open>uuid\<close> is the value \<^verbatim>\<open>crypto.randomUUID()\<close> returns in this call.
  \<^verbatim>\<open>rows.slice(0, index + 1)\<close> is \<open>take\<close>, \<^verbatim>\<open>rows.slice(index + 1)\<close> is \<open>drop\<close>.
\<close>

definition duplicate_rows :: "jsstring \<Rightarrow> jsstring \<Rightarrow> Row list \<Rightarrow> Row list" where
  "duplicate_rows k uuid rs =
     (let index = findIndex (\<lambda>r. key r = k) rs in
      if index = - 1 then rs
      else (let original = rs ! nat index;
                copy = original\<lparr>key := uuid\<rparr>
            in take (nat (index + 1)) rs @ [copy] @ drop (nat (index + 1)) rs))"

definition duplicateRow :: "jsstring \<Rightarrow> jsstring \<Rightarrow> App \<Rightarrow> App" where
  "duplicateRow k uuid s = s\<lparr>rows := duplicate_rows k uuid (rows s)\<rparr>"

text \<open>
  Modelled from the spec: \<^verbatim>\<open>arrayMove\<close> is imported from the package
  \<^verbatim>\<open>@dnd-kit/sortable\<close> and its code is not part of the sources. The specification's
  \<^verbatim>\<open>reorder(fromIndex, toIndex)\<close> "moves the entry at \<^verbatim>\<open>fromIndex\<close> to \<^verbatim>\<open>toIndex\<close>,
  shifting intervening entries; both indices must be within bounds": the entry is taken
  out and put back at index \<^verbatim>\<open>toIndex\<close> of what remains. Outside the bounds the
  specification gives no result, which is \<open>None\<close> here.
\<close>

definition arrayMove :: "'a list \<Rightarrow> int \<Rightarrow> int \<Rightarrow> 'a list option" where
  "arrayMove xs fromIndex toIndex =
     (if 0 \<le> fromIndex \<and> fromIndex < int (length xs) \<and>
         0 \<le> toIndex \<and> toIndex < int (length xs)
      then (let x = xs ! nat fromIndex;
                ys = take (nat fromIndex) xs @ drop (Suc (nat fromIndex)) xs
            in Some (take (nat toIndex) ys @ [x] @ drop (nat toIndex) ys))
      else None)"

text \<open>
  \<^verbatim>\<open>onDragEnd\<close>: the event carries the key of the dragged row (\<^verbatim>\<open>active.id\<close>) and of
  the row it was dropped on (\<^verbatim>\<open>over\<close>, which may be \<^verbatim>\<open>null\<close>). The handler reads the
  indices from the rows it rendered and moves within the rows of the state; the model
  takes the two to be the same list. The result is \<open>None\<close> where \<open>arrayMove\<close> is called
  outside the bounds its specification covers.
\<close>

record DragEndEvent =
  active :: jsstring
  over :: "jsstring option"

definition onDragEnd :: "DragEndEvent \<Rightarrow> App \<Rightarrow> App option" where
  "onDragEnd event s =
     (case over event of
        None \<Rightarrow> Some s
      | Some over_id \<Rightarrow>
          if active event \<noteq> over_id then
            (let oldIndex = findIndex (\<lambda>r. key r = active event) (rows s);
                 newIndex = findIndex (\<lambda>r. key r = over_id) (rows s)
             in case arrayMove (rows s) oldIndex newIndex of
                  None \<Rightarrow> None
                | Some moved \<Rightarrow> Some (s\<lparr>rows := moved\<rparr>))
          else Some s)"

section \<open>Intake\<close>

text \<open>
  What the awaited calls of \<^verbatim>\<open>uploadPDF\<close> can come back with. \<^verbatim>\<open>fetch\<close> rejects (the
  service is unreachable) with an error carrying a message, or resolves with a response
  that has a status; \<^verbatim>\<open>res.ok\<close> holds for the statuses 200 to 299. \<^verbatim>\<open>res.json()\<close> rejects
  with an error carrying a message, or resolves with the metadata.
\<close>

datatype json_result = JsonRejected jsstring | Json UploadedDocMeta

datatype fetch_result = FetchRejected jsstring | Response nat json_result

definition res_ok :: "nat \<Rightarrow> bool" where
  "res_ok status \<longleftrightarrow> 200 \<le> status \<and> status \<le> 299"

text \<open>
  The body of the \<^verbatim>\<open>try\<close> block up to \<^verbatim>\<open>setRows\<close>: \<open>Inl\<close> is the message of the error
  thrown, \<open>Inr\<close> the row built. \<open>uuid\<close> is the value of \<^verbatim>\<open>crypto.randomUUID()\<close>.
\<close>

definition upload_try :: "File \<Rightarrow> jsstring \<Rightarrow> fetch_result \<Rightarrow> jsstring + Row" where
  "upload_try file uuid res =
     (case res of
        FetchRejected msg \<Rightarrow> Inl msg
      | Response status body \<Rightarrow>
          if \<not> res_ok status
          then Inl (js ''Upload failed ('' @ number_toString (int status) @ js '')'')
          else (case body of
                  JsonRejected msg \<Rightarrow> Inl msg
                | Json meta \<Rightarrow>
                    Inr \<lparr>documentId = documentId meta, name = file_name file,
                         size_bytes = size_bytes meta, pages = pages meta,
                         key = uuid, split = defaultSplitForPages (pages meta)\<rparr>))"

text \<open>\<^verbatim>\<open>e.message || "Upload failed"\<close>: the empty string is falsy.\<close>

definition message_or :: "jsstring \<Rightarrow> jsstring \<Rightarrow> jsstring" where
  "message_or msg dflt = (if msg = [] then dflt else msg)"

text \<open>
  \<^verbatim>\<open>uploadPDF\<close> runs in two steps, with the \<^verbatim>\<open>await\<close> between them: \<open>uploadPDF_begin\<close>
  clears the error, raises \<^verbatim>\<open>uploading\<close> and sends the file (renamed to its own name,
  typed \<^verbatim>\<open>application/pdf\<close>); \<open>uploadPDF_resume\<close> is the rest of \<^verbatim>\<open>try\<close>, the \<^verbatim>\<open>catch\<close>
  and the \<^verbatim>\<open>finally\<close>, applied to the state as it is when the answer arrives.
\<close>

definition uploadPDF_begin :: "File \<Rightarrow> App \<Rightarrow> App" where
  "uploadPDF_begin file s =
     s\<lparr>error := None, uploading := True,
       uploads := uploads s @ [file\<lparr>file_type := js ''application/pdf''\<rparr>]\<rparr>"

definition uploadPDF_resume :: "File \<Rightarrow> jsstring \<Rightarrow> fetch_result \<Rightarrow> App \<Rightarrow> App" where
  "uploadPDF_resume file uuid res s =
     (let s' = (case upload_try file uuid res of
                  Inr newRow \<Rightarrow> s\<lparr>rows := rows s @ [newRow]\<rparr>
                | Inl msg \<Rightarrow> s\<lparr>error := Some (message_or msg (js ''Upload failed''))\<rparr>)
      in s'\<lparr>uploading := False\<rparr>)"

definition uploadPDF :: "File \<Rightarrow> jsstring \<Rightarrow> fetch_result \<Rightarrow> App \<Rightarrow> App" where
  "uploadPDF file uuid res s = uploadPDF_resume file uuid res (uploadPDF_begin file s)"

text \<open>
  The three ways a file comes in. \<^verbatim>\<open>onFileChange\<close> and \<^verbatim>\<open>onDrop\<close> get the first file of
  the event, if there is one; \<^verbatim>\<open>onPaste\<close> looks for the first clipboard item typed
  \<^verbatim>\<open>application/pdf\<close>.
\<close>

definition onFileChange :: "File option \<Rightarrow> jsstring \<Rightarrow> fetch_result \<Rightarrow> App \<Rightarrow> App" where
  "onFileChange f uuid res s =
     (case f of None \<Rightarrow> s | Some file \<Rightarrow> uploadPDF file uuid res s)"

definition onDrop :: "File option \<Rightarrow> jsstring \<Rightarrow> fetch_result \<Rightarrow> App \<Rightarrow> App" where
  "onDrop f uuid res s =
     (case f of
        None \<Rightarrow> s
      | Some file \<Rightarrow>
          if file_type file = js ''application/pdf'' then uploadPDF file uuid res s else s)"

definition onPaste :: "DataTransferItem list \<Rightarrow> jsstring \<Rightarrow> fetch_result \<Rightarrow> App \<Rightarrow> App" where
  "onPaste items uuid res s =
     (case find (\<lambda>i. item_type i = js ''application/pdf'') items of
        None \<Rightarrow> s
      | Some item \<Rightarrow>
          (case getAsFile item of
             None \<Rightarrow> s
           | Some file \<Rightarrow> uploadPDF file uuid res s))"

section \<open>The grammar as the specification words it\<close>

text \<open>
  A number is one or more digits (\<^verbatim>\<open>\d+\<close>) and denotes its value in positional
  decimal notation.
\<close>

definition is_number :: "jsstring \<Rightarrow> bool" where
  "is_number s \<longleftrightarrow> s \<noteq> [] \<and> (\<forall>c \<in> set s. is_digit c)"

definition decimal_value :: "jsstring \<Rightarrow> int" where
  "decimal_value s = (\<Sum>i < length s. digit_val (s ! i) * 10 ^ (length s - Suc i))"

text \<open>
  A term matches \<^verbatim>\<open>^\d+(-\d+)?$\<close> when it is a number, or a number, a hyphen and a
  number. Its bounds \<open>(a, b)\<close> are the values of the two numbers, \<open>b = a\<close> for a bare
  number, and the term is valid for \<open>mx\<close> when \<open>1 \<le> a \<le> b \<le> mx\<close>.
\<close>

definition term_valid :: "int \<Rightarrow> jsstring \<Rightarrow> bool" where
  "term_valid mx t \<longleftrightarrow>
     (is_number t \<and> 1 \<le> decimal_value t \<and> decimal_value t \<le> mx) \<or>
     (\<exists>i < length t. t ! i = hyphen \<and>
        is_number (take i t) \<and> is_number (drop (Suc i) t) \<and>
        1 \<le> decimal_value (take i t) \<and>
        decimal_value (take i t) \<le> decimal_value (drop (Suc i) t) \<and>
        decimal_value (drop (Suc i) t) \<le> mx)"

text \<open>
  The comma-separated trimmed terms of an expression, and those of them that are not
  empty.
\<close>

definition spec_terms :: "jsstring \<Rightarrow> jsstring list" where
  "spec_terms e = map trim (split_comma e)"

definition nonempty_terms :: "jsstring \<Rightarrow> jsstring list" where
  "nonempty_terms e = filter (\<lambda>t. t \<noteq> []) (spec_terms e)"

text \<open>
  The specification's property of \<^verbatim>\<open>validate\<close>, read with every comma-separated term
  (\<open>spec_validate\<close>) and read with the terms that are left when the empty ones are put
  aside (\<open>spec_validate_nonempty\<close>).
\<close>

definition spec_validate :: "jsstring \<Rightarrow> int \<Rightarrow> bool" where
  "spec_validate e mx \<longleftrightarrow> (\<forall>t \<in> set (spec_terms e). term_valid mx t)"

definition spec_validate_nonempty :: "jsstring \<Rightarrow> int \<Rightarrow> bool" where
  "spec_validate_nonempty e mx \<longleftrightarrow> (\<forall>t \<in> set (nonempty_terms e). term_valid mx t)"

section \<open>Sample data\<close>

definition sample_pdf :: File where
  "sample_pdf = \<lparr>file_name = js ''a.pdf'', file_type = js ''application/pdf''\<rparr>"

definition sample_txt :: File where
  "sample_txt = \<lparr>file_name = js ''notes.txt'', file_type = js ''text/plain''\<rparr>"

definition sample_row :: "string \<Rightarrow> int \<Rightarrow> string \<Rightarrow> Row" where
  "sample_row k n v =
     \<lparr>documentId = js ''doc-1'', name = js ''a.pdf'', size_bytes = 2048, pages = n,
      key = js k, split = js v\<rparr>"

definition sample_App :: App where
  "sample_App =
     initial_App\<lparr>rows := [sample_row ''A'' 10 ''1-10'', sample_row ''B'' 4 ''2,4'',
                             sample_row ''C'' 7 ''3-5'']\<rparr>"

lemmas grammar_defs =
  isValidSplit_def parts_of_def js_def trim_def is_space_def comma_def match_re_def
  is_digit_def hyphen_def parseInt_def digit_val_def

lemmas sample_defs =
  sample_App_def sample_row_def sample_pdf_def sample_txt_def initial_App_def

section \<open>Readiness\<close>

lemma every_iff: "every P xs \<longleftrightarrow> (\<forall>x \<in> set xs. P x)"
  by (induction xs) auto

text \<open>
  C3. The generate action is available exactly when there is at least one row and the
  selection of every row is valid for the page count of that row. So it is unavailable
  on the empty collection, and unavailable as soon as one row has an invalid selection.
\<close>

theorem canGenerate_iff:
  "(canGenerate s \<longleftrightarrow>
      rows s \<noteq> [] \<and> (\<forall>r \<in> set (rows s). isValidSplit (split r) (pages r))) \<and>
   (rows s = [] \<longrightarrow> \<not> canGenerate s) \<and>
   (\<forall>r \<in> set (rows s). \<not> isValidSplit (split r) (pages r) \<longrightarrow> \<not> canGenerate s)"
  by (auto simp: canGenerate_def every_iff)

theorem canGenerate_iff_witness:
  "canGenerate sample_App \<and> \<not> canGenerate initial_App \<and>
   \<not> canGenerate (sample_App\<lparr>rows := rows sample_App @ [sample_row ''D'' 3 ''4'']\<rparr>)"
proof -
  have ok: "\<forall>r \<in> set (rows sample_App). isValidSplit (split r) (pages r)"
    by (simp add: sample_defs grammar_defs)
  have ne: "rows sample_App \<noteq> []"
    by (simp add: sample_defs)
  have bad: "\<not> isValidSplit (split (sample_row ''D'' 3 ''4'')) (pages (sample_row ''D'' 3 ''4''))"
    by (simp add: sample_defs grammar_defs)
  have "canGenerate sample_App"
    using canGenerate_iff [of sample_App] ok ne by blast
  moreover have "\<not> canGenerate initial_App"
    using canGenerate_iff [of initial_App] by (simp add: initial_App_def)
  moreover have "\<not> canGenerate (sample_App\<lparr>rows := rows sample_App @ [sample_row ''D'' 3 ''4'']\<rparr>)"
    using canGenerate_iff [of "sample_App\<lparr>rows := rows sample_App @ [sample_row ''D'' 3 ''4'']\<rparr>"] bad
    by simp
  ultimately show ?thesis by blast
qed

section \<open>Editing a selection\<close>

text \<open>
  C9. \<^verbatim>\<open>updateSplit\<close> stores the new expression, whatever it is, in the row whose key is
  given: the collection keeps its length and order, the row with that key keeps every
  other field, every other row is untouched, and so is the rest of the state.
\<close>

theorem updateSplit_frame:
  "length (rows (updateSplit k v s)) = length (rows s) \<and>
   (\<forall>i < length (rows s).
      rows (updateSplit k v s) ! i =
        (if key (rows s ! i) = k then (rows s ! i)\<lparr>split := v\<rparr> else rows s ! i)) \<and>
   map key (rows (updateSplit k v s)) = map key (rows s) \<and>
   map documentId (rows (updateSplit k v s)) = map documentId (rows s) \<and>
   map name (rows (updateSplit k v s)) = map name (rows s) \<and>
   map size_bytes (rows (updateSplit k v s)) = map size_bytes (rows s) \<and>
   map pages (rows (updateSplit k v s)) = map pages (rows s) \<and>
   loading (updateSplit k v s) = loading s \<and>
   error (updateSplit k v s) = error s \<and>
   outputName (updateSplit k v s) = outputName s \<and>
   uploading (updateSplit k v s) = uploading s \<and>
   uploads (updateSplit k v s) = uploads s"
  by (simp add: updateSplit_def)

theorem updateSplit_frame_witness:
  "(1::nat) < length (rows sample_App) \<and> key (rows sample_App ! 1) = js ''B'' \<and>
   \<not> isValidSplit (js ''9-'') 4 \<and>
   rows (updateSplit (js ''B'') (js ''9-'') sample_App) ! 1 = sample_row ''B'' 4 ''9-'' \<and>
   rows (updateSplit (js ''B'') (js ''9-'') sample_App) ! 0 = sample_row ''A'' 10 ''1-10''"
proof -
  have len: "(1::nat) < length (rows sample_App)" "(0::nat) < length (rows sample_App)"
    by (simp_all add: sample_defs)
  have k: "key (rows sample_App ! 1) = js ''B''" "key (rows sample_App ! 0) \<noteq> js ''B''"
    by (simp_all add: sample_defs js_def)
  have bad: "\<not> isValidSplit (js ''9-'') 4"
    by (simp add: grammar_defs)
  from updateSplit_frame [of "js ''B''" "js ''9-''" sample_App] len k
  have "rows (updateSplit (js ''B'') (js ''9-'') sample_App) ! 1 =
          (rows sample_App ! 1)\<lparr>split := js ''9-''\<rparr>"
    and "rows (updateSplit (js ''B'') (js ''9-'') sample_App) ! 0 = rows sample_App ! 0"
    by auto
  then show ?thesis
    using len k bad by (simp add: sample_defs)
qed

section \<open>Intake\<close>

text \<open>
  C4. When an upload fails, because \<^verbatim>\<open>fetch\<close> rejects or because the response is not a
  success, the rows are what they were when the answer arrived (and, for the whole call,
  what they were before it), the error holds a message that is not empty (the message of
  the rejection, or "Upload failed" when that is empty, or "Upload failed (status)"),
  and \<^verbatim>\<open>uploading\<close> is lowered again; \<^verbatim>\<open>loading\<close> and the output name are not touched.
\<close>

theorem uploadPDF_failure:
  assumes "res = FetchRejected msg \<or> (res = Response status body \<and> \<not> res_ok status)"
  shows "rows (uploadPDF_resume file uuid res s) = rows s \<and>
         error (uploadPDF_resume file uuid res s) =
           Some (case res of
                   FetchRejected m \<Rightarrow> message_or m (js ''Upload failed'')
                 | Response st b \<Rightarrow>
                     js ''Upload failed ('' @ number_toString (int st) @ js '')'') \<and>
         error (uploadPDF_resume file uuid res s) \<noteq> Some [] \<and>
         \<not> uploading (uploadPDF_resume file uuid res s) \<and>
         loading (uploadPDF_resume file uuid res s) = loading s \<and>
         outputName (uploadPDF_resume file uuid res s) = outputName s \<and>
         rows (uploadPDF file uuid res s) = rows s \<and>
         error (uploadPDF file uuid res s) = error (uploadPDF_resume file uuid res s) \<and>
         \<not> uploading (uploadPDF file uuid res s) \<and>
         loading (uploadPDF file uuid res s) = loading s"
  using assms
  by (auto simp: uploadPDF_def uploadPDF_resume_def uploadPDF_begin_def upload_try_def
      message_or_def js_def split: if_splits)

theorem uploadPDF_failure_witness:
  "\<not> res_ok 500 \<and>
   rows (uploadPDF sample_pdf (js ''K'') (Response 500 (JsonRejected [])) sample_App) =
     rows sample_App \<and>
   error (uploadPDF sample_pdf (js ''K'') (Response 500 (JsonRejected [])) sample_App) =
     Some (js ''Upload failed (500)'') \<and>
   \<not> uploading (uploadPDF sample_pdf (js ''K'') (Response 500 (JsonRejected [])) sample_App) \<and>
   rows (uploadPDF sample_pdf (js ''K'') (FetchRejected []) sample_App) = rows sample_App \<and>
   error (uploadPDF sample_pdf (js ''K'') (FetchRejected []) sample_App) =
     Some (js ''Upload failed'')"
proof -
  have h: "\<not> res_ok 500"
    by (simp add: res_ok_def)
  have n: "number_toString (int 500) = js ''500''"
    by (simp add: number_toString_def digits_of.simps js_def)
  have a: "Response 500 (JsonRejected []) = FetchRejected [] \<or>
           (Response 500 (JsonRejected []) = Response 500 (JsonRejected []) \<and> \<not> res_ok 500)"
    using h by simp
  have b: "FetchRejected [] = FetchRejected [] \<or>
           (FetchRejected [] = Response 0 (JsonRejected []) \<and> \<not> res_ok 0)"
    by simp
  show ?thesis
    using uploadPDF_failure [OF a, of sample_pdf "js ''K''" sample_App]
      uploadPDF_failure [OF b, of sample_pdf "js ''K''" sample_App] h n
    by (simp add: message_or_def js_def)
qed

text \<open>
  C5, as the code has it. A dropped file whose type is not \<^verbatim>\<open>application/pdf\<close>, and a
  paste none of whose items has that type, are ignored: the state is left as it is, so
  no upload request is made, the rows and the flags are unchanged, and the error is
  neither set nor cleared.
\<close>

theorem intake_not_pdf_ignored:
  "(file_type file \<noteq> js ''application/pdf'' \<longrightarrow> onDrop (Some file) uuid res s = s) \<and>
   ((\<forall>i \<in> set items. item_type i \<noteq> js ''application/pdf'') \<longrightarrow>
      onPaste items uuid res s = s)"
  by (auto simp: onDrop_def onPaste_def find_Some_iff split: option.splits)

theorem intake_not_pdf_ignored_witness:
  "file_type sample_txt \<noteq> js ''application/pdf'' \<and>
   item_type \<lparr>item_type = js ''text/plain'', getAsFile = Some sample_txt\<rparr>
     \<noteq> js ''application/pdf'' \<and>
   onDrop (Some sample_txt) (js ''K'') (Response 200 (JsonRejected [])) sample_App
     = sample_App \<and>
   onPaste [\<lparr>item_type = js ''text/plain'', getAsFile = Some sample_txt\<rparr>] (js ''K'')
     (Response 200 (JsonRejected [])) sample_App = sample_App"
proof -
  have t: "file_type sample_txt \<noteq> js ''application/pdf''"
    by (simp add: sample_txt_def js_def)
  have i: "\<forall>i \<in> set [\<lparr>item_type = js ''text/plain'', getAsFile = Some sample_txt\<rparr>].
             item_type i \<noteq> js ''application/pdf''"
    by (simp add: js_def)
  show ?thesis
    using intake_not_pdf_ignored [of sample_txt "js ''K''" "Response 200 (JsonRejected [])"
        sample_App "[\<lparr>item_type = js ''text/plain'', getAsFile = Some sample_txt\<rparr>]"] t i
    by simp
qed

text \<open>
  C5, as the specification has it, fails: dropping a text file on the fresh application
  leaves the error empty, so nothing is surfaced to the user.
\<close>

theorem intake_not_pdf_no_error:
  "file_type sample_txt \<noteq> js ''application/pdf'' \<and>
   error (onDrop (Some sample_txt) (js ''K'') (FetchRejected []) initial_App) = None \<and>
   error (onPaste [\<lparr>item_type = js ''text/plain'', getAsFile = Some sample_txt\<rparr>]
            (js ''K'') (FetchRejected []) initial_App) = None"
  by (simp add: onDrop_def onPaste_def sample_txt_def initial_App_def js_def)

section \<open>Finding a row by its key\<close>

lemma findIndex_from_absent:
  "\<forall>x \<in> set xs. \<not> P x \<Longrightarrow> findIndex_from P xs n = - 1"
  by (induction xs arbitrary: n) auto

lemma findIndex_from_first:
  "i < length xs \<Longrightarrow> P (xs ! i) \<Longrightarrow> \<forall>j < i. \<not> P (xs ! j) \<Longrightarrow>
   findIndex_from P xs n = n + int i"
proof (induction xs arbitrary: n i)
  case Nil
  then show ?case by simp
next
  case (Cons x xs)
  show ?case
  proof (cases i)
    case 0
    with Cons.prems show ?thesis by simp
  next
    case (Suc i')
    from Cons.prems Suc have "\<not> P x" by auto
    moreover from Cons.prems Suc have "i' < length xs" "P (xs ! i')" by auto
    moreover from Cons.prems Suc have "\<forall>j < i'. \<not> P (xs ! j)" by auto
    ultimately show ?thesis
      using Cons.IH [of i' "n + 1"] Suc by simp
  qed
qed

lemma findIndex_distinct:
  assumes "distinct (map f xs)" "i < length xs"
  shows "findIndex (\<lambda>x. f x = f (xs ! i)) xs = int i"
proof -
  have "\<forall>j < i. f (xs ! j) \<noteq> f (xs ! i)"
    using assms by (auto simp: distinct_conv_nth)
  then show ?thesis
    using assms findIndex_from_first [of i xs "\<lambda>x. f x = f (xs ! i)" 0]
    by (simp add: findIndex_def)
qed

lemma findIndex_absent: "k \<notin> set (map f xs) \<Longrightarrow> findIndex (\<lambda>x. f x = k) xs = - 1"
  unfolding findIndex_def by (rule findIndex_from_absent) auto

section \<open>Duplicating a row\<close>

lemma duplicate_rows_present:
  assumes "distinct (map key rs)" "i < length rs" "key (rs ! i) = k"
  shows "duplicate_rows k uuid rs =
           take (Suc i) rs @ [(rs ! i)\<lparr>key := uuid\<rparr>] @ drop (Suc i) rs"
  using findIndex_distinct [OF assms(1,2)] assms(3)
  by (simp add: duplicate_rows_def Let_def nat_add_distrib)

lemma insert_after_nth:
  fixes c :: 'a
  assumes "i < length rs"
  defines "ds \<equiv> take (Suc i) rs @ [c] @ drop (Suc i) rs"
  shows "length ds = Suc (length rs)" "ds ! Suc i = c"
    "\<forall>j \<le> i. ds ! j = rs ! j" "\<forall>j. i < j \<and> j < length rs \<longrightarrow> ds ! Suc j = rs ! j"
proof -
  have l: "length (take (Suc i) rs) = Suc i" using assms(1) by simp
  show "length ds = Suc (length rs)" using assms(1) by (simp add: ds_def)
  show "ds ! Suc i = c" using l by (simp add: ds_def nth_append)
  show "\<forall>j \<le> i. ds ! j = rs ! j" using l by (simp add: ds_def nth_append)
  show "\<forall>j. i < j \<and> j < length rs \<longrightarrow> ds ! Suc j = rs ! j"
  proof (intro allI impI)
    fix j assume j: "i < j \<and> j < length rs"
    then obtain d where d: "j = Suc i + d" using less_iff_Suc_add by auto
    have "ds ! Suc j = (c # drop (Suc i) rs) ! (Suc j - Suc i)"
      using l j by (simp add: ds_def nth_append)
    also have "\<dots> = drop (Suc i) rs ! d" using d by simp
    also have "\<dots> = rs ! j" using d j by simp
    finally show "ds ! Suc j = rs ! j" .
  qed
qed

lemma distinct_keys_insert:
  assumes "distinct (map key rs)" "uuid \<notin> set (map key rs)"
  shows "distinct (map key (take n rs @ [r\<lparr>key := uuid\<rparr>] @ drop n rs))"
proof -
  have "distinct (map key (take n rs) @ map key (drop n rs))"
    using assms(1) by (metis append_take_drop_id map_append)
  moreover have "uuid \<notin> set (map key (take n rs))" "uuid \<notin> set (map key (drop n rs))"
    using assms(2) by (auto dest: in_set_takeD in_set_dropD)
  ultimately show ?thesis by auto
qed

text \<open>
  C7. In a collection whose keys are distinct, with the key \<open>k\<close> at index \<open>i\<close> and a
  fresh \<open>uuid\<close>, \<^verbatim>\<open>duplicateRow\<close> gives the rows up to \<open>i\<close>, then a copy of row \<open>i\<close> under
  the key \<open>uuid\<close>, then the rows after \<open>i\<close>. So the collection is one longer, the copy
  sits at \<open>i + 1\<close> with the selection and the document identifier of row \<open>i\<close>, its key
  is no key of the collection, the rows up to \<open>i\<close> keep their index, the rows after
  \<open>i\<close> move up by one in the same order, and the keys stay distinct. With a key that no
  row has, the state is unchanged.
\<close>

theorem duplicateRow_inserts_copy:
  "(distinct (map key (rows s)) \<and> i < length (rows s) \<and> key (rows s ! i) = k \<and>
    uuid \<notin> set (map key (rows s)) \<longrightarrow>
      rows (duplicateRow k uuid s) =
        take (Suc i) (rows s) @ [(rows s ! i)\<lparr>key := uuid\<rparr>] @ drop (Suc i) (rows s) \<and>
      length (rows (duplicateRow k uuid s)) = Suc (length (rows s)) \<and>
      rows (duplicateRow k uuid s) ! Suc i = (rows s ! i)\<lparr>key := uuid\<rparr> \<and>
      split (rows (duplicateRow k uuid s) ! Suc i) = split (rows s ! i) \<and>
      documentId (rows (duplicateRow k uuid s) ! Suc i) = documentId (rows s ! i) \<and>
      key (rows (duplicateRow k uuid s) ! Suc i) = uuid \<and>
      (\<forall>r \<in> set (rows s). key r \<noteq> key (rows (duplicateRow k uuid s) ! Suc i)) \<and>
      (\<forall>j \<le> i. rows (duplicateRow k uuid s) ! j = rows s ! j) \<and>
      (\<forall>j. i < j \<and> j < length (rows s) \<longrightarrow>
         rows (duplicateRow k uuid s) ! Suc j = rows s ! j) \<and>
      distinct (map key (rows (duplicateRow k uuid s)))) \<and>
   (k \<notin> set (map key (rows s)) \<longrightarrow> duplicateRow k uuid s = s)"
proof (intro conjI impI)
  assume "k \<notin> set (map key (rows s))"
  then show "duplicateRow k uuid s = s"
    by (simp add: duplicateRow_def duplicate_rows_def findIndex_absent)
next
  assume a: "distinct (map key (rows s)) \<and> i < length (rows s) \<and> key (rows s ! i) = k \<and>
    uuid \<notin> set (map key (rows s))"
  let ?c = "(rows s ! i)\<lparr>key := uuid\<rparr>"
  have eq: "rows (duplicateRow k uuid s) =
      take (Suc i) (rows s) @ [?c] @ drop (Suc i) (rows s)"
    using a duplicate_rows_present [of "rows s" i k uuid] by (simp add: duplicateRow_def)
  have i: "i < length (rows s)" using a by simp
  note ins = insert_after_nth [OF i, where c = ?c, folded eq]
  have at: "rows (duplicateRow k uuid s) ! Suc i = ?c" by (rule ins(2))
  show "rows (duplicateRow k uuid s) =
      take (Suc i) (rows s) @ [?c] @ drop (Suc i) (rows s)" by (rule eq)
  show "length (rows (duplicateRow k uuid s)) = Suc (length (rows s))" by (rule ins(1))
  show "rows (duplicateRow k uuid s) ! Suc i = ?c" by (rule at)
  show "split (rows (duplicateRow k uuid s) ! Suc i) = split (rows s ! i)"
    by (simp add: at)
  show "documentId (rows (duplicateRow k uuid s) ! Suc i) = documentId (rows s ! i)"
    by (simp add: at)
  show "key (rows (duplicateRow k uuid s) ! Suc i) = uuid"
    by (simp add: at)
  show "\<forall>r \<in> set (rows s). key r \<noteq> key (rows (duplicateRow k uuid s) ! Suc i)"
    using a by (auto simp: at)
  show "\<forall>j \<le> i. rows (duplicateRow k uuid s) ! j = rows s ! j" by (rule ins(3))
  show "\<forall>j. i < j \<and> j < length (rows s) \<longrightarrow>
      rows (duplicateRow k uuid s) ! Suc j = rows s ! j" by (rule ins(4))
  show "distinct (map key (rows (duplicateRow k uuid s)))"
    unfolding eq using a distinct_keys_insert [of "rows s" uuid "Suc i" "rows s ! i"] by simp
qed

theorem duplicateRow_inserts_copy_witness:
  "distinct (map key (rows sample_App)) \<and> (1::nat) < length (rows sample_App) \<and>
   key (rows sample_App ! 1) = js ''B'' \<and> js ''K'' \<notin> set (map key (rows sample_App)) \<and>
   js ''Z'' \<notin> set (map key (rows sample_App)) \<and>
   rows (duplicateRow (js ''B'') (js ''K'') sample_App) =
     [sample_row ''A'' 10 ''1-10'', sample_row ''B'' 4 ''2,4'', sample_row ''K'' 4 ''2,4'',
      sample_row ''C'' 7 ''3-5''] \<and>
   duplicateRow (js ''Z'') (js ''K'') sample_App = sample_App"
proof -
  have h: "distinct (map key (rows sample_App)) \<and> (1::nat) < length (rows sample_App) \<and>
      key (rows sample_App ! 1) = js ''B'' \<and> js ''K'' \<notin> set (map key (rows sample_App))"
    by (simp add: sample_defs js_def)
  have z: "js ''Z'' \<notin> set (map key (rows sample_App))"
    by (simp add: sample_defs js_def)
  from duplicateRow_inserts_copy
    [where s = sample_App and i = 1 and k = "js ''B''" and uuid = "js ''K''"] h
  have "rows (duplicateRow (js ''B'') (js ''K'') sample_App) =
      take (Suc 1) (rows sample_App) @ [(rows sample_App ! 1)\<lparr>key := js ''K''\<rparr>] @
      drop (Suc 1) (rows sample_App)"
    by blast
  moreover from duplicateRow_inserts_copy
    [where s = sample_App and k = "js ''Z''" and uuid = "js ''K''"] z
  have "duplicateRow (js ''Z'') (js ''K'') sample_App = sample_App"
    by blast
  ultimately show ?thesis
    using h z by (simp add: sample_defs)
qed

section \<open>Reordering\<close>

lemma arrayMove_in_bounds:
  assumes "i < length xs" "j < length xs"
  shows "arrayMove xs (int i) (int j) =
           Some (take j (take i xs @ drop (Suc i) xs) @ [xs ! i] @
                 drop j (take i xs @ drop (Suc i) xs))"
  using assms by (simp add: arrayMove_def Let_def)

lemma move_entry_props:
  assumes "i < length xs" "j < length xs"
  defines "zs \<equiv> take i xs @ drop (Suc i) xs"
  defines "ys \<equiv> take j zs @ [xs ! i] @ drop j zs"
  shows "length ys = length xs" "ys ! j = xs ! i"
    "take j ys @ drop (Suc j) ys = zs" "mset ys = mset xs" "i = j \<Longrightarrow> ys = xs"
proof -
  have lz: "Suc (length zs) = length xs" using assms(1) by (simp add: zs_def)
  then have jz: "j \<le> length zs" using assms(2) by simp
  show "length ys = length xs" using lz jz by (simp add: ys_def)
  show "ys ! j = xs ! i" using jz by (simp add: ys_def nth_append)
  show "take j ys @ drop (Suc j) ys = zs" using jz by (simp add: ys_def)
  have "xs = take i xs @ xs ! i # drop (Suc i) xs"
    using assms(1) by (rule id_take_nth_drop)
  then have "mset xs = mset (take i xs) + mset (xs ! i # drop (Suc i) xs)"
    by (metis mset_append)
  then have x: "mset xs = add_mset (xs ! i) (mset zs)"
    by (simp add: zs_def)
  have "mset (take j zs) + mset (drop j zs) = mset zs"
    by (metis mset_append append_take_drop_id)
  then have "mset ys = add_mset (xs ! i) (mset zs)"
    by (simp add: ys_def)
  then show "mset ys = mset xs" using x by simp
  show "ys = xs" if "i = j"
    using that assms(1) by (simp add: ys_def zs_def id_take_nth_drop [symmetric])
qed

text \<open>
  C6. For indices \<open>i\<close> and \<open>j\<close> within bounds, \<open>arrayMove\<close> from \<open>i\<close> to \<open>j\<close> gives a
  collection of the same length and the same entries, in which the moved entry sits at
  index \<open>j\<close> and what is left when it is taken out is the original collection without
  entry \<open>i\<close>, in the same order; with \<open>i = j\<close> nothing changes. Where the keys are
  distinct, dragging row \<open>i\<close> onto row \<open>j\<close> replaces the rows by this result. On three
  entries, moving 0 to 2 gives the second, the third, the first; moving 2 to 0 gives
  the third, the first, the second.
\<close>

theorem onDragEnd_reorder:
  assumes "i < length (rows s)" "j < length (rows s)"
  shows "\<exists>ys. arrayMove (rows s) (int i) (int j) = Some ys \<and>
           length ys = length (rows s) \<and>
           ys ! j = rows s ! i \<and>
           take j ys @ drop (Suc j) ys = take i (rows s) @ drop (Suc i) (rows s) \<and>
           mset ys = mset (rows s) \<and>
           (i = j \<longrightarrow> ys = rows s) \<and>
           (distinct (map key (rows s)) \<longrightarrow>
              onDragEnd \<lparr>active = key (rows s ! i), over = Some (key (rows s ! j))\<rparr> s
                = Some (s\<lparr>rows := ys\<rparr>)) \<and>
           arrayMove [a, b, c] 0 2 = Some [b, c, a] \<and>
           arrayMove [a, b, c] 2 0 = Some [c, a, b]"
proof -
  let ?zs = "take i (rows s) @ drop (Suc i) (rows s)"
  let ?ys = "take j ?zs @ [rows s ! i] @ drop j ?zs"
  note p = move_entry_props [OF assms]
  have am: "arrayMove (rows s) (int i) (int j) = Some ?ys"
    using assms by (rule arrayMove_in_bounds)
  have drag: "onDragEnd \<lparr>active = key (rows s ! i), over = Some (key (rows s ! j))\<rparr> s
      = Some (s\<lparr>rows := ?ys\<rparr>)" if d: "distinct (map key (rows s))"
  proof (cases "i = j")
    case True
    then have "?ys = rows s" using p(5) by simp
    then show ?thesis using True by (simp add: onDragEnd_def)
  next
    case False
    have fi: "findIndex (\<lambda>r. key r = key (rows s ! i)) (rows s) = int i"
      using d assms(1) by (rule findIndex_distinct)
    have fj: "findIndex (\<lambda>r. key r = key (rows s ! j)) (rows s) = int j"
      using d assms(2) by (rule findIndex_distinct)
    from False have "key (rows s ! i) \<noteq> key (rows s ! j)"
      using d assms by (simp add: distinct_conv_nth)
    then show ?thesis
      using fi fj am by (simp add: onDragEnd_def Let_def)
  qed
  have ex1: "arrayMove [a, b, c] 0 2 = Some [b, c, a]"
    by (simp add: arrayMove_def)
  have ex2: "arrayMove [a, b, c] 2 0 = Some [c, a, b]"
    by (simp add: arrayMove_def)
  from am drag p ex1 ex2 show ?thesis by blast
qed

theorem onDragEnd_reorder_witness:
  "(0::nat) < length (rows sample_App) \<and> (2::nat) < length (rows sample_App) \<and>
   distinct (map key (rows sample_App)) \<and>
   onDragEnd \<lparr>active = js ''A'', over = Some (js ''C'')\<rparr> sample_App =
     Some (sample_App\<lparr>rows := [sample_row ''B'' 4 ''2,4'', sample_row ''C'' 7 ''3-5'',
                                  sample_row ''A'' 10 ''1-10'']\<rparr>)"
proof -
  have h: "(0::nat) < length (rows sample_App)" "(2::nat) < length (rows sample_App)"
    by (simp_all add: sample_defs)
  have d: "distinct (map key (rows sample_App))"
    by (simp add: sample_defs js_def)
  have k: "key (rows sample_App ! 0) = js ''A''" "key (rows sample_App ! 2) = js ''C''"
    by (simp_all add: sample_defs)
  have am: "arrayMove (rows sample_App) (int 0) (int 2) =
      Some [sample_row ''B'' 4 ''2,4'', sample_row ''C'' 7 ''3-5'', sample_row ''A'' 10 ''1-10'']"
    by (simp add: arrayMove_def sample_defs)
  from onDragEnd_reorder [where a = True and b = True and c = True, OF h] d
  obtain ys where
    "arrayMove (rows sample_App) (int 0) (int 2) = Some ys"
    "onDragEnd \<lparr>active = key (rows sample_App ! 0), over = Some (key (rows sample_App ! 2))\<rparr>
       sample_App = Some (sample_App\<lparr>rows := ys\<rparr>)"
    by blast
  then show ?thesis
    using h d k am by simp
qed

section \<open>The selection grammar against its specification\<close>

lemma decimal_value_Cons:
  "decimal_value (c # s) = digit_val c * 10 ^ length s + decimal_value s"
  by (simp add: decimal_value_def sum.lessThan_Suc_shift del: sum.lessThan_Suc)

lemma foldl_decimal:
  "foldl (\<lambda>acc c. acc * 10 + digit_val c) a s = a * 10 ^ length s + decimal_value s"
proof (induction s arbitrary: a)
  case Nil
  then show ?case by (simp add: decimal_value_def)
next
  case (Cons c s)
  then show ?case by (simp add: decimal_value_Cons algebra_simps)
qed

lemma parseInt_decimal: "parseInt s = decimal_value s"
  by (simp add: parseInt_def foldl_decimal)

lemma hyphen_not_digit: "\<not> is_digit hyphen"
  by (simp add: is_digit_def hyphen_def)

lemma match_re_number:
  assumes "is_number p"
  shows "match_re p = Some (p, None)"
proof -
  have tw: "takeWhile is_digit p = p" and dw: "dropWhile is_digit p = []" and ne: "p \<noteq> []"
    using assms by (simp_all add: is_number_def)
  show ?thesis unfolding match_re_def Let_def tw dw using ne by simp
qed

lemma match_re_range:
  assumes "is_number d1" "is_number d2"
  shows "match_re (d1 @ hyphen # d2) = Some (d1, Some d2)"
proof -
  have "takeWhile is_digit (d1 @ hyphen # d2) = d1"
    using assms(1) hyphen_not_digit by (simp add: is_number_def takeWhile_tail)
  moreover have "dropWhile is_digit (d1 @ hyphen # d2) = hyphen # d2"
    using assms(1) hyphen_not_digit by (simp add: is_number_def)
  ultimately show ?thesis
    using assms by (simp add: match_re_def is_number_def list_all_iff)
qed

lemma match_re_SomeD:
  assumes "match_re p = Some (g1, g3)"
  shows "is_number g1 \<and>
         (case g3 of None \<Rightarrow> p = g1
          | Some d2 \<Rightarrow> is_number d2 \<and> p = g1 @ hyphen # d2)"
proof -
  have g1: "g1 = takeWhile is_digit p" and ne: "g1 \<noteq> []"
    using assms by (auto simp: match_re_def Let_def split: if_splits list.splits)
  have n1: "is_number g1"
    using g1 ne by (auto simp: is_number_def dest: set_takeWhileD)
  have p: "g1 @ dropWhile is_digit p = p"
    using g1 by simp
  have m: "match_re p =
      (case dropWhile is_digit p of
         [] \<Rightarrow> Some (g1, None)
       | c # r \<Rightarrow> if c = hyphen \<and> r \<noteq> [] \<and> list_all is_digit r
                   then Some (g1, Some r) else None)"
    unfolding match_re_def Let_def g1 [symmetric] using ne by simp
  show ?thesis
  proof (cases "dropWhile is_digit p")
    case Nil
    with m assms have "g3 = None" by simp
    moreover from p Nil have "p = g1" by (metis append_Nil2)
    ultimately show ?thesis using n1 by simp
  next
    case (Cons c r)
    with m assms have c: "c = hyphen" "r \<noteq> []" "list_all is_digit r" "g3 = Some r"
      by (auto split: if_splits)
    from p Cons c(1) have "p = g1 @ hyphen # r" by metis
    then show ?thesis using n1 c by (simp add: is_number_def list_all_iff)
  qed
qed

lemma term_valid_number:
  "is_number t \<Longrightarrow> term_valid mx t \<longleftrightarrow> 1 \<le> decimal_value t \<and> decimal_value t \<le> mx"
proof -
  assume n: "is_number t"
  have "\<not> (\<exists>i < length t. t ! i = hyphen)"
    using n hyphen_not_digit by (metis is_number_def nth_mem)
  then show ?thesis using n by (auto simp: term_valid_def)
qed

lemma term_valid_range:
  assumes "is_number d1" "is_number d2"
  shows "term_valid mx (d1 @ hyphen # d2) \<longleftrightarrow>
           1 \<le> decimal_value d1 \<and> decimal_value d1 \<le> decimal_value d2 \<and> decimal_value d2 \<le> mx"
proof -
  let ?t = "d1 @ hyphen # d2"
  have notnum: "\<not> is_number ?t"
    using hyphen_not_digit by (auto simp: is_number_def)
  have uniq: "i = length d1" if "i < length ?t" "?t ! i = hyphen" for i
  proof (rule ccontr)
    assume "i \<noteq> length d1"
    then consider "i < length d1" | "length d1 < i" by linarith
    then have "is_digit (?t ! i)"
    proof cases
      case 1
      then show ?thesis using assms(1) by (simp add: nth_append is_number_def)
    next
      case 2
      then obtain k where k: "i = Suc (length d1 + k)" using less_iff_Suc_add by auto
      then have "k < length d2" using that(1) by simp
      then show ?thesis using assms(2) k by (simp add: nth_append is_number_def)
    qed
    then show False using that(2) hyphen_not_digit by simp
  qed
  have "term_valid mx ?t \<longleftrightarrow>
      (\<exists>i < length ?t. ?t ! i = hyphen \<and>
        is_number (take i ?t) \<and> is_number (drop (Suc i) ?t) \<and>
        1 \<le> decimal_value (take i ?t) \<and>
        decimal_value (take i ?t) \<le> decimal_value (drop (Suc i) ?t) \<and>
        decimal_value (drop (Suc i) ?t) \<le> mx)"
    using notnum unfolding term_valid_def by blast
  also have "\<dots> \<longleftrightarrow> 1 \<le> decimal_value d1 \<and> decimal_value d1 \<le> decimal_value d2 \<and> decimal_value d2 \<le> mx"
  proof
    assume "\<exists>i < length ?t. ?t ! i = hyphen \<and>
        is_number (take i ?t) \<and> is_number (drop (Suc i) ?t) \<and>
        1 \<le> decimal_value (take i ?t) \<and>
        decimal_value (take i ?t) \<le> decimal_value (drop (Suc i) ?t) \<and>
        decimal_value (drop (Suc i) ?t) \<le> mx"
    then obtain i where i: "i < length ?t" "?t ! i = hyphen"
      and v: "1 \<le> decimal_value (take i ?t) \<and>
        decimal_value (take i ?t) \<le> decimal_value (drop (Suc i) ?t) \<and>
        decimal_value (drop (Suc i) ?t) \<le> mx" by blast
    from uniq [OF i] v show "1 \<le> decimal_value d1 \<and> decimal_value d1 \<le> decimal_value d2 \<and> decimal_value d2 \<le> mx"
      by simp
  next
    assume "1 \<le> decimal_value d1 \<and> decimal_value d1 \<le> decimal_value d2 \<and> decimal_value d2 \<le> mx"
    then show "\<exists>i < length ?t. ?t ! i = hyphen \<and>
        is_number (take i ?t) \<and> is_number (drop (Suc i) ?t) \<and>
        1 \<le> decimal_value (take i ?t) \<and>
        decimal_value (take i ?t) \<le> decimal_value (drop (Suc i) ?t) \<and>
        decimal_value (drop (Suc i) ?t) \<le> mx"
      using assms by (intro exI [of _ "length d1"]) simp
  qed
  finally show ?thesis .
qed

lemma term_valid_shape:
  assumes "term_valid mx t"
  shows "is_number t \<or> (\<exists>d1 d2. is_number d1 \<and> is_number d2 \<and> t = d1 @ hyphen # d2)"
proof (cases "is_number t")
  case True
  then show ?thesis by simp
next
  case False
  with assms obtain i where i: "i < length t" "t ! i = hyphen"
    "is_number (take i t)" "is_number (drop (Suc i) t)"
    unfolding term_valid_def by blast
  have "t = take i t @ hyphen # drop (Suc i) t"
    using i(1,2) id_take_nth_drop by metis
  with i show ?thesis by blast
qed

lemma check_parts_single: "check_parts [p] mx \<longleftrightarrow> term_valid mx p"
proof (cases "match_re p")
  case None
  have "\<not> term_valid mx p"
  proof
    assume "term_valid mx p"
    from term_valid_shape [OF this] show False
      using None match_re_number match_re_range by fastforce
  qed
  with None show ?thesis by simp
next
  case (Some m)
  obtain g1 g3 where m: "m = (g1, g3)" by (cases m)
  note d = match_re_SomeD [OF Some [unfolded m]]
  show ?thesis
  proof (cases g3)
    case None
    with d have "is_number p" "p = g1" by simp_all
    then show ?thesis
      using Some m None term_valid_number [of p mx]
      by (auto simp: parseInt_decimal Let_def)
  next
    case (Some d2)
    with d have n: "is_number g1" "is_number d2" and p: "p = g1 @ hyphen # d2" by simp_all
    show ?thesis
      using \<open>match_re p = Some m\<close> m Some term_valid_range [OF n, of mx] p
      by (auto simp: parseInt_decimal Let_def)
  qed
qed

lemma check_parts_Cons:
  "check_parts (p # ps) mx \<longleftrightarrow> check_parts [p] mx \<and> check_parts ps mx"
  by (auto simp: Let_def split: option.splits)

lemma check_parts_iff: "check_parts ps mx \<longleftrightarrow> (\<forall>p \<in> set ps. term_valid mx p)"
proof (induction ps)
  case Nil
  show ?case by simp
next
  case (Cons p ps)
  then show ?case
    using check_parts_Cons [of p ps mx] check_parts_single [of p mx] by simp
qed

lemma comma_not_space: "\<not> is_space comma"
  by (simp add: is_space_def comma_def)

lemma trim_eq_Nil_iff: "trim s = [] \<longleftrightarrow> (\<forall>c \<in> set s. is_space c)"
proof
  assume "trim s = []"
  then have a: "\<forall>c \<in> set (dropWhile is_space s). is_space c"
    by (simp add: trim_def)
  have "dropWhile is_space s = []"
  proof (rule ccontr)
    assume ne: "dropWhile is_space s \<noteq> []"
    then have "\<not> is_space (hd (dropWhile is_space s))" by (rule hd_dropWhile)
    moreover have "hd (dropWhile is_space s) \<in> set (dropWhile is_space s)"
      using ne by simp
    ultimately show False using a by blast
  qed
  then show "\<forall>c \<in> set s. is_space c" by simp
next
  assume "\<forall>c \<in> set s. is_space c"
  then have d: "dropWhile is_space s = []" by simp
  show "trim s = []" unfolding trim_def d by simp
qed

lemma split_comma_no_comma: "comma \<notin> set s \<Longrightarrow> split_comma s = [s]"
  by (induction s) auto


lemma blank_no_terms:
  assumes "trim e = []"
  shows "nonempty_terms e = []"
proof -
  have "comma \<notin> set e"
    using assms comma_not_space by (auto simp: trim_eq_Nil_iff)
  then show ?thesis
    using assms by (simp add: nonempty_terms_def spec_terms_def split_comma_no_comma)
qed

lemma parts_of_terms: "parts_of e = nonempty_terms e"
  by (simp add: parts_of_def nonempty_terms_def spec_terms_def)

lemma isValidSplit_iff:
  "isValidSplit e mx \<longleftrightarrow> trim e \<noteq> [] \<and> (\<forall>t \<in> set (nonempty_terms e). term_valid mx t)"
  by (simp add: isValidSplit_def check_parts_iff parts_of_terms)

text \<open>
  C1, as the code has it. Take a bound \<open>mx\<close> below \<open>2 ^ 53\<close>, and leave aside the
  expressions made of commas and white space only, with at least one comma. For every
  other expression, that is one with a term that is not empty, or a blank one,
  \<^verbatim>\<open>isValidSplit\<close> is true exactly when the expression has a non-empty trimmed term and
  every non-empty trimmed term is a number or a range with \<open>1 \<le> a \<le> b \<le> mx\<close>. The empty
  terms that stray commas leave are put aside, not matched, and a blank expression is
  invalid.
\<close>

theorem isValidSplit_iff_terms:
  assumes "nonempty_terms e \<noteq> [] \<or> trim e = []" and "mx < 2 ^ 53"
  shows "isValidSplit e mx \<longleftrightarrow>
           nonempty_terms e \<noteq> [] \<and> (\<forall>t \<in> set (nonempty_terms e). term_valid mx t)"
  using assms blank_no_terms [of e] by (auto simp: isValidSplit_iff)

lemma term_valid_Nil: "\<not> term_valid mx []"
  by (simp add: term_valid_def is_number_def)

theorem isValidSplit_iff_terms_witness:
  "(5::int) < 2 ^ 53 \<and> (4::int) < 2 ^ 53 \<and>
   nonempty_terms (js ''1,,2-5'') = [js ''1'', js ''2-5''] \<and>
   isValidSplit (js ''1,,2-5'') 5 \<and> \<not> isValidSplit (js ''1,,2-5'') 4 \<and>
   trim (js '' '') = [] \<and> \<not> isValidSplit (js '' '') 5"
proof -
  have t: "nonempty_terms (js ''1,,2-5'') = [js ''1'', js ''2-5'']"
    by (simp add: nonempty_terms_def spec_terms_def js_def trim_def is_space_def comma_def)
  have n: "is_number (js ''1'')" "is_number (js ''2'')" "is_number (js ''5'')"
    by (simp_all add: is_number_def is_digit_def js_def)
  have d: "decimal_value (js ''1'') = 1" "decimal_value (js ''2'') = 2"
      "decimal_value (js ''5'') = 5"
    by (simp_all add: decimal_value_def digit_val_def js_def)
  have r: "js ''2-5'' = js ''2'' @ hyphen # js ''5''"
    by (simp add: js_def hyphen_def)
  have v: "term_valid 5 (js ''1'')" "term_valid 4 (js ''1'')"
    using n d by (simp_all add: term_valid_number)
  have w: "term_valid 5 (js ''2-5'')" "\<not> term_valid 4 (js ''2-5'')"
    unfolding r using n d by (simp_all add: term_valid_range)
  have b: "trim (js '' '') = []"
    by (simp add: trim_def js_def is_space_def)
  have m: "(5::int) < 2 ^ 53" "(4::int) < 2 ^ 53"
    by simp_all
  have "isValidSplit (js ''1,,2-5'') 5"
    using isValidSplit_iff_terms [of "js ''1,,2-5''" 5] m t v w by simp
  moreover have "\<not> isValidSplit (js ''1,,2-5'') 4"
    using isValidSplit_iff_terms [of "js ''1,,2-5''" 4] m t v w by simp
  moreover have "\<not> isValidSplit (js '' '') 5"
    using isValidSplit_iff_terms [of "js '' ''" 5] m b blank_no_terms [OF b] by simp
  ultimately show ?thesis using m t b by simp
qed

text \<open>
  C1, as the specification has it, fails under both readings of "term". With every
  comma-separated term counted, \<^verbatim>\<open>1,,2\<close> is valid for 5 pages although its middle term
  is empty and matches nothing. With the empty terms put aside, the empty expression
  has no term that fails and is invalid all the same.
\<close>

theorem isValidSplit_not_spec_validate:
  "isValidSplit (js ''1,,2'') 5 \<and> \<not> spec_validate (js ''1,,2'') 5 \<and>
   \<not> isValidSplit (js []) 5 \<and> spec_validate_nonempty (js []) 5"
proof -
  have "isValidSplit (js ''1,,2'') 5"
    by (simp add: grammar_defs)
  moreover have "[] \<in> set (spec_terms (js ''1,,2''))"
    by (simp add: spec_terms_def js_def trim_def is_space_def comma_def)
  then have "\<not> spec_validate (js ''1,,2'') 5"
    using term_valid_Nil unfolding spec_validate_def by blast
  moreover have "\<not> isValidSplit (js []) 5"
    by (simp add: grammar_defs)
  moreover have "spec_validate_nonempty (js []) 5"
    by (simp add: spec_validate_nonempty_def nonempty_terms_def spec_terms_def js_def trim_def)
  ultimately show ?thesis by blast
qed

text \<open>
  C2. An expression of commas only, or of commas and white space, passes the first test
  (it is not blank), leaves no part after the empty ones are filtered out, and the loop
  over no parts returns true: \<^verbatim>\<open>isValidSplit\<close> accepts it.
\<close>

theorem isValidSplit_commas_only:
  "isValidSplit (js '',,,'') 5 \<and> isValidSplit (js '' , '') 5 \<and>
   nonempty_terms (js '',,,'') = []"
  by (simp add: grammar_defs nonempty_terms_def spec_terms_def)

section \<open>The default selection\<close>
















section \<open>Leading zeros and white space\<close>
















end
